theory Spec2Isabelle
  imports Complex_Main
begin

section \<open>Constants of \<^verbatim>\<open>Birdgame.py\<close>\<close>

definition SCREEN_WIDTH :: int where "SCREEN_WIDTH = 400"
definition SCREEN_HEIGHT :: int where "SCREEN_HEIGHT = 600"
definition PIPE_WIDTH :: int where "PIPE_WIDTH = 80"
definition PIPE_GAP :: int where "PIPE_GAP = 150"

text \<open>
  \<^verbatim>\<open>GRAVITY = 0.5\<close> is a Python float, and so are \<open>y\<close> and the velocity of the bird
  from the first move on. They are modelled by rationals. This is exact on the states
  of a run, where every float is a multiple of one half of small magnitude (lemma
  \<open>reachable_floats_exact\<close>); on other values a double sum may round, so theorems about
  the bird's floats are stated for reachable states.
\<close>

definition GRAVITY :: rat where "GRAVITY = 1 / 2"
definition JUMP_STRENGTH :: rat where "JUMP_STRENGTH = - 10"

section \<open>The part of \<^verbatim>\<open>pygame.Rect\<close> that the game uses\<close>

text \<open>
  A \<^verbatim>\<open>pygame.Rect(left, top, width, height)\<close> stores four C ints. A float argument
  is converted by a C cast, which truncates toward zero (\<open>c_int\<close>). The attributes
  \<^verbatim>\<open>top\<close> and \<^verbatim>\<open>bottom\<close> are \<open>y\<close> and \<open>y + h\<close>.
\<close>

record rect =
  rect_x :: int
  rect_y :: int
  rect_w :: int
  rect_h :: int

definition c_int :: "rat \<Rightarrow> int" where
  "c_int q = (if 0 \<le> q then \<lfloor>q\<rfloor> else \<lceil>q\<rceil>)"

definition Rect :: "int \<Rightarrow> int \<Rightarrow> int \<Rightarrow> int \<Rightarrow> rect" where
  "Rect l t w h = \<lparr>rect_x = l, rect_y = t, rect_w = w, rect_h = h\<rparr>"

definition rect_left :: "rect \<Rightarrow> int" where "rect_left r = rect_x r"
definition rect_right :: "rect \<Rightarrow> int" where "rect_right r = rect_x r + rect_w r"
definition rect_top :: "rect \<Rightarrow> int" where "rect_top r = rect_y r"
definition rect_bottom :: "rect \<Rightarrow> int" where "rect_bottom r = rect_y r + rect_h r"

text \<open>
  \<^verbatim>\<open>Rect.colliderect\<close> of pygame 2: a rectangle of zero width or height collides
  with nothing; otherwise the test is the strict one, on the normalised extents.
\<close>

definition colliderect :: "rect \<Rightarrow> rect \<Rightarrow> bool" where
  "colliderect a b =
     (if rect_w a = 0 \<or> rect_h a = 0 \<or> rect_w b = 0 \<or> rect_h b = 0 then False
      else min (rect_x a) (rect_x a + rect_w a) < max (rect_x b) (rect_x b + rect_w b)
         \<and> min (rect_y a) (rect_y a + rect_h a) < max (rect_y b) (rect_y b + rect_h b)
         \<and> max (rect_x a) (rect_x a + rect_w a) > min (rect_x b) (rect_x b + rect_w b)
         \<and> max (rect_y a) (rect_y a + rect_h a) > min (rect_y b) (rect_y b + rect_h b))"

text \<open>
  The overlap test in the words of the specification: two axis-aligned rectangles
  overlap strictly when their interiors meet; rectangles that only share an edge do not.
\<close>

definition strict_overlap :: "rect \<Rightarrow> rect \<Rightarrow> bool" where
  "strict_overlap a b \<longleftrightarrow>
     rect_left a < rect_right b \<and> rect_left b < rect_right a
   \<and> rect_top a < rect_bottom b \<and> rect_top b < rect_bottom a"

section \<open>class Bird\<close>

record Bird =
  bird_x :: int
  bird_y :: rat
  bird_size :: int
  bird_velocity :: rat

definition Bird_init :: Bird where
  "Bird_init = \<lparr>bird_x = 50, bird_y = of_int (SCREEN_HEIGHT div 2), bird_size = 20,
     bird_velocity = 0\<rparr>"

definition jump :: "Bird \<Rightarrow> Bird" where
  "jump b = b\<lparr>bird_velocity := JUMP_STRENGTH\<rparr>"

text \<open>
  The two additions of \<^verbatim>\<open>Bird.move\<close> are additions of doubles in the source and of
  rationals here; they agree on the states of a run (see the remark on \<open>GRAVITY\<close>).
\<close>

definition Bird_move :: "Bird \<Rightarrow> Bird" where
  "Bird_move b =
     (let b1 = b\<lparr>bird_velocity := bird_velocity b + GRAVITY\<rparr>
      in b1\<lparr>bird_y := bird_y b1 + bird_velocity b1\<rparr>)"

definition get_rect :: "Bird \<Rightarrow> rect" where
  "get_rect b = Rect (bird_x b) (c_int (bird_y b)) (bird_size b) (bird_size b)"

text \<open>
  The bounding box in the words of the specification: the square of side \<open>size\<close>
  anchored at \<open>(x, y)\<close>, with the float \<open>y\<close> as it is. Its top and bottom edges, to
  be compared with those of \<open>get_rect\<close>.
\<close>

definition spec_box_top :: "Bird \<Rightarrow> rat" where
  "spec_box_top b = bird_y b"

definition spec_box_bottom :: "Bird \<Rightarrow> rat" where
  "spec_box_bottom b = bird_y b + of_int (bird_size b)"

section \<open>class Pipe\<close>

record Pipe =
  pipe_x :: int
  pipe_gap_y :: int
  pipe_velocity :: int
  pipe_passed :: bool

definition Pipe_init :: "int \<Rightarrow> int \<Rightarrow> Pipe" where
  "Pipe_init x gap_y = \<lparr>pipe_x = x, pipe_gap_y = gap_y, pipe_velocity = - 4,
     pipe_passed = False\<rparr>"

definition Pipe_move :: "Pipe \<Rightarrow> Pipe" where
  "Pipe_move p = p\<lparr>pipe_x := pipe_x p + pipe_velocity p\<rparr>"

definition off_screen :: "Pipe \<Rightarrow> bool" where
  "off_screen p \<longleftrightarrow> pipe_x p < - PIPE_WIDTH"

definition get_upper_rect :: "Pipe \<Rightarrow> rect" where
  "get_upper_rect p = Rect (pipe_x p) 0 PIPE_WIDTH (pipe_gap_y p - PIPE_GAP div 2)"

definition get_lower_rect :: "Pipe \<Rightarrow> rect" where
  "get_lower_rect p = Rect (pipe_x p) (pipe_gap_y p + PIPE_GAP div 2) PIPE_WIDTH SCREEN_HEIGHT"

section \<open>class Game\<close>

text \<open>
  The fields of \<^verbatim>\<open>Game\<close> that the game logic reads and writes; the screen, the clock
  and the font only serve drawing.
\<close>

record Game =
  bird :: Bird
  pipes :: "Pipe list"
  score :: int
  game_over :: bool
  pipe_spawn_counter :: int

definition reset_game :: Game where
  "reset_game = \<lparr>bird = Bird_init, pipes = [], score = 0, game_over = False,
     pipe_spawn_counter = 0\<rparr>"

text \<open>
  The events of \<^verbatim>\<open>pygame.event.get()\<close>, as far as \<^verbatim>\<open>_handle_events\<close> tells
  them apart. \<^verbatim>\<open>quit_game\<close> ends the process (\<^verbatim>\<open>sys.exit\<close>): the result is
  \<open>None\<close> and the remaining events are never looked at.
\<close>

datatype key = K_SPACE | K_OTHER
datatype event = QUIT | KEYDOWN key | OTHER_EVENT

fun handle_event :: "Game \<Rightarrow> event \<Rightarrow> Game option" where
  "handle_event g QUIT = None"
| "handle_event g (KEYDOWN k) =
     (let g1 = (if \<not> game_over g then (if k = K_SPACE then g\<lparr>bird := jump (bird g)\<rparr> else g)
                else g);
          g2 = (if game_over g1 then (if k = K_SPACE then reset_game else g1) else g1)
      in Some g2)"
| "handle_event g OTHER_EVENT = Some g"

fun handle_events :: "Game \<Rightarrow> event list \<Rightarrow> Game option" where
  "handle_events g [] = Some g"
| "handle_events g (e # es) =
     (case handle_event g e of None \<Rightarrow> None | Some g1 \<Rightarrow> handle_events g1 es)"

text \<open>The loop over the pipes in \<^verbatim>\<open>_check_collisions\<close>, then the screen boundaries.\<close>

fun collide_pipes :: "rect \<Rightarrow> Pipe list \<Rightarrow> bool \<Rightarrow> bool" where
  "collide_pipes r [] over = over"
| "collide_pipes r (p # ps) over =
     collide_pipes r ps
       (if colliderect r (get_upper_rect p) \<or> colliderect r (get_lower_rect p) then True
        else over)"

definition check_collisions :: "Game \<Rightarrow> Game" where
  "check_collisions g =
     (let bird_rect = get_rect (bird g);
          g1 = g\<lparr>game_over := collide_pipes bird_rect (pipes g) (game_over g)\<rparr>
      in if rect_top bird_rect < 0 \<or> rect_bottom bird_rect > SCREEN_HEIGHT
         then g1\<lparr>game_over := True\<rparr> else g1)"

text \<open>
  The scoring loop of \<^verbatim>\<open>_manage_pipes\<close>: it runs over the pipes in list order and
  threads the score. The first argument is \<^verbatim>\<open>self.bird.x\<close>.
\<close>

fun score_pipes :: "int \<Rightarrow> Pipe list \<Rightarrow> int \<Rightarrow> Pipe list \<times> int" where
  "score_pipes bx [] s = ([], s)"
| "score_pipes bx (p # ps) s =
     (if pipe_x p + PIPE_WIDTH < bx \<and> \<not> pipe_passed p
      then (let (ps', s') = score_pipes bx ps (s + 1) in (p\<lparr>pipe_passed := True\<rparr> # ps', s'))
      else (let (ps', s') = score_pipes bx ps s in (p # ps', s')))"

text \<open>
  \<^verbatim>\<open>_manage_pipes\<close>. The value of \<^verbatim>\<open>random.randint(PIPE_GAP, SCREEN_HEIGHT - PIPE_GAP)\<close>
  is the argument \<open>rnd\<close>; it is used only when a pipe is spawned.
\<close>

definition spawn_pipes :: "Game \<Rightarrow> int \<Rightarrow> Game" where
  "spawn_pipes g rnd =
     (let g1 = g\<lparr>pipe_spawn_counter := pipe_spawn_counter g + 1\<rparr>
      in if pipe_spawn_counter g1 > 90
         then g1\<lparr>pipes := pipes g1 @ [Pipe_init SCREEN_WIDTH rnd], pipe_spawn_counter := 0\<rparr>
         else g1)"

definition manage_pipes :: "Game \<Rightarrow> int \<Rightarrow> Game" where
  "manage_pipes g rnd =
     (let g2 = spawn_pipes g rnd;
          g3 = g2\<lparr>pipes := filter (\<lambda>pipe. \<not> off_screen pipe) (pipes g2)\<rparr>;
          (ps, s) = score_pipes (bird_x (bird g3)) (pipes g3) (score g3)
      in g3\<lparr>pipes := ps, score := s\<rparr>)"

text \<open>
  One iteration of the loop of \<^verbatim>\<open>run\<close>, without the drawing. \<open>move_all\<close> is the
  bird's move followed by the loop that moves every pipe; \<open>update\<close> is the branch
  taken when the game is not over.
\<close>

definition move_all :: "Game \<Rightarrow> Game" where
  "move_all g = (let g1 = g\<lparr>bird := Bird_move (bird g)\<rparr> in g1\<lparr>pipes := map Pipe_move (pipes g1)\<rparr>)"

definition update :: "Game \<Rightarrow> int \<Rightarrow> Game" where
  "update g rnd = check_collisions (manage_pipes (move_all g) rnd)"

record frame_input =
  events :: "event list"
  randint :: int

definition frame :: "Game \<Rightarrow> frame_input \<Rightarrow> Game option" where
  "frame g inp =
     (case handle_events g (events inp) of
        None \<Rightarrow> None
      | Some g1 \<Rightarrow> Some (if \<not> game_over g1 then update g1 (randint inp) else g1))"

fun run_frames :: "Game \<Rightarrow> frame_input list \<Rightarrow> Game option" where
  "run_frames g [] = Some g"
| "run_frames g (i # is) = (case frame g i of None \<Rightarrow> None | Some g1 \<Rightarrow> run_frames g1 is)"

text \<open>\<^verbatim>\<open>random.randint(a, b)\<close> returns an integer between \<open>a\<close> and \<open>b\<close>, both included.\<close>

definition valid_input :: "frame_input \<Rightarrow> bool" where
  "valid_input inp \<longleftrightarrow> PIPE_GAP \<le> randint inp \<and> randint inp \<le> SCREEN_HEIGHT - PIPE_GAP"

text \<open>The states of a run: \<^verbatim>\<open>Game()\<close> calls \<^verbatim>\<open>reset_game\<close>, then \<^verbatim>\<open>run\<close> iterates.\<close>

inductive reachable :: "Game \<Rightarrow> bool" where
  reachable_init: "reachable reset_game"
| reachable_frame: "reachable g \<Longrightarrow> valid_input inp \<Longrightarrow> frame g inp = Some g' \<Longrightarrow> reachable g'"

section \<open>Auxiliary notions for the proofs\<close>

text \<open>
  What the scoring loop does to one pipe, and the test it applies; the invariant of the
  pipes of a running game. None of these is in the source: they describe it.
\<close>

definition mark_passed :: "int \<Rightarrow> Pipe \<Rightarrow> Pipe" where
  "mark_passed bx p = (if pipe_x p + PIPE_WIDTH < bx \<and> \<not> pipe_passed p then p\<lparr>pipe_passed := True\<rparr> else p)"

definition newly_passed :: "int \<Rightarrow> Pipe \<Rightarrow> bool" where
  "newly_passed bx p \<longleftrightarrow> pipe_x p + PIPE_WIDTH < bx \<and> \<not> pipe_passed p"

definition pipe_ok :: "int \<Rightarrow> Pipe \<Rightarrow> bool" where
  "pipe_ok c p \<longleftrightarrow> pipe_velocity p = - 4
     \<and> PIPE_GAP \<le> pipe_gap_y p \<and> pipe_gap_y p \<le> SCREEN_HEIGHT - PIPE_GAP
     \<and> - PIPE_WIDTH \<le> pipe_x p \<and> pipe_x p \<le> SCREEN_WIDTH - 4 * c
     \<and> (pipe_passed p \<longleftrightarrow> pipe_x p + PIPE_WIDTH < 50)"

definition game_inv :: "Game \<Rightarrow> bool" where
  "game_inv g \<longleftrightarrow> bird_x (bird g) = 50 \<and> bird_size (bird g) = 20
     \<and> 0 \<le> pipe_spawn_counter g \<and> pipe_spawn_counter g \<le> 90
     \<and> list_all (pipe_ok (pipe_spawn_counter g)) (pipes g)
     \<and> sorted_wrt (\<lambda>p q. pipe_x p + 364 \<le> pipe_x q) (pipes g)"

text \<open>
  The flags of a state are consistent when the bird is not right of where pipes are
  spawned, every pipe moves to the left, and a pipe is flagged \<open>passed\<close> exactly when
  its trailing edge is strictly left of the bird. Every state of a run is so, and so
  are states with pipes closer together than a run produces.
\<close>

definition flags_consistent :: "Game \<Rightarrow> bool" where
  "flags_consistent g \<longleftrightarrow>
     bird_x (bird g) \<le> SCREEN_WIDTH + PIPE_WIDTH
     \<and> list_all (\<lambda>p. pipe_velocity p < 0
          \<and> (pipe_passed p \<longleftrightarrow> pipe_x p + PIPE_WIDTH < bird_x (bird g))) (pipes g)"

text \<open>
  A ghost count for the score: the number of pipes that the removal pass has deleted
  since the game was last reset, along the frames of a run. It follows \<open>run_frames\<close>
  frame by frame; a frame that restarts the game sets the count back to 0.
\<close>

fun session_removed :: "Game \<Rightarrow> nat \<Rightarrow> frame_input list \<Rightarrow> nat" where
  "session_removed g n [] = n"
| "session_removed g n (i # is) =
     (case handle_events g (events i) of
        None \<Rightarrow> n
      | Some g1 \<Rightarrow>
          if game_over g1 then session_removed g1 n is
          else session_removed (update g1 (randint i))
                 ((if game_over g then 0 else n)
                    + length (filter off_screen (pipes (spawn_pipes (move_all g1) (randint i)))))
                 is)"

text \<open>
  Frames without the restart or jump key (a \<^verbatim>\<open>KEYDOWN\<close> of the space bar), and without
  a \<^verbatim>\<open>QUIT\<close> event.
\<close>

definition no_restart :: "frame_input \<Rightarrow> bool" where
  "no_restart inp \<longleftrightarrow> KEYDOWN K_SPACE \<notin> set (events inp)"

definition no_quit :: "frame_input \<Rightarrow> bool" where
  "no_quit inp \<longleftrightarrow> QUIT \<notin> set (events inp)"



section \<open>A sample run\<close>

text \<open>
  Inputs and states of one run of the game, used as concrete instances below. The
  player presses the space bar on frames 1, 40, 79, 118, 157 and 196, and every pipe
  gets the gap centre 260; \<open>state_n\<close> is the game after \<open>n\<close> frames. From
  \<open>state_182\<close>, \<open>crash_196\<close> is reached by not pressing the key any more, and
  \<open>over_197\<close> is the frame after it, where the bird hits the lower pipe.
\<close>

definition jump_frame :: frame_input where
  "jump_frame = \<lparr>events = [KEYDOWN K_SPACE], randint = 260\<rparr>"

definition idle_frame :: frame_input where
  "idle_frame = \<lparr>events = [], randint = 260\<rparr>"

definition inputs_90 :: "frame_input list" where
  "inputs_90 = jump_frame # replicate 38 idle_frame @ jump_frame # replicate 38 idle_frame
     @ jump_frame # replicate 11 idle_frame"

definition inputs_182 :: "frame_input list" where
  "inputs_182 = replicate 27 idle_frame @ jump_frame # replicate 38 idle_frame
     @ jump_frame # replicate 25 idle_frame"

definition state_90 :: Game where
  "state_90 = \<lparr>bird = \<lparr>bird_x = 50, bird_y = 219, bird_size = 20, bird_velocity = - 4\<rparr>,
     pipes = [], score = 0, game_over = False, pipe_spawn_counter = 90\<rparr>"

definition state_182 :: Game where
  "state_182 = \<lparr>bird = \<lparr>bird_x = 50, bird_y = 431 / 2, bird_size = 20, bird_velocity = 3\<rparr>,
     pipes = [\<lparr>pipe_x = 36, pipe_gap_y = 260, pipe_velocity = - 4, pipe_passed = False\<rparr>,
              \<lparr>pipe_x = 400, pipe_gap_y = 260, pipe_velocity = - 4, pipe_passed = False\<rparr>],
     score = 0, game_over = False, pipe_spawn_counter = 0\<rparr>"

definition state_192 :: Game where
  "state_192 = \<lparr>bird = \<lparr>bird_x = 50, bird_y = 273, bird_size = 20, bird_velocity = 8\<rparr>,
     pipes = [\<lparr>pipe_x = - 4, pipe_gap_y = 260, pipe_velocity = - 4, pipe_passed = False\<rparr>,
              \<lparr>pipe_x = 360, pipe_gap_y = 260, pipe_velocity = - 4, pipe_passed = False\<rparr>],
     score = 0, game_over = False, pipe_spawn_counter = 10\<rparr>"

definition state_194 :: Game where
  "state_194 = \<lparr>bird = \<lparr>bird_x = 50, bird_y = 581 / 2, bird_size = 20, bird_velocity = 9\<rparr>,
     pipes = [\<lparr>pipe_x = - 12, pipe_gap_y = 260, pipe_velocity = - 4, pipe_passed = False\<rparr>,
              \<lparr>pipe_x = 352, pipe_gap_y = 260, pipe_velocity = - 4, pipe_passed = False\<rparr>],
     score = 0, game_over = False, pipe_spawn_counter = 12\<rparr>"

definition state_198 :: Game where
  "state_198 = \<lparr>bird = \<lparr>bird_x = 50, bird_y = 273, bird_size = 20, bird_velocity = - (17 / 2)\<rparr>,
     pipes = [\<lparr>pipe_x = - 28, pipe_gap_y = 260, pipe_velocity = - 4, pipe_passed = False\<rparr>,
              \<lparr>pipe_x = 336, pipe_gap_y = 260, pipe_velocity = - 4, pipe_passed = False\<rparr>],
     score = 0, game_over = False, pipe_spawn_counter = 16\<rparr>"

definition state_211 :: Game where
  "state_211 = \<lparr>bird = \<lparr>bird_x = 50, bird_y = 208, bird_size = 20, bird_velocity = - 2\<rparr>,
     pipes = [\<lparr>pipe_x = - 80, pipe_gap_y = 260, pipe_velocity = - 4, pipe_passed = True\<rparr>,
              \<lparr>pipe_x = 284, pipe_gap_y = 260, pipe_velocity = - 4, pipe_passed = False\<rparr>],
     score = 1, game_over = False, pipe_spawn_counter = 29\<rparr>"

definition crash_196 :: Game where
  "crash_196 = \<lparr>bird = \<lparr>bird_x = 50, bird_y = 310, bird_size = 20, bird_velocity = 10\<rparr>,
     pipes = [\<lparr>pipe_x = - 20, pipe_gap_y = 260, pipe_velocity = - 4, pipe_passed = False\<rparr>,
              \<lparr>pipe_x = 344, pipe_gap_y = 260, pipe_velocity = - 4, pipe_passed = False\<rparr>],
     score = 0, game_over = False, pipe_spawn_counter = 14\<rparr>"

definition over_197 :: Game where
  "over_197 = \<lparr>bird = \<lparr>bird_x = 50, bird_y = 641 / 2, bird_size = 20, bird_velocity = 21 / 2\<rparr>,
     pipes = [\<lparr>pipe_x = - 24, pipe_gap_y = 260, pipe_velocity = - 4, pipe_passed = False\<rparr>,
              \<lparr>pipe_x = 340, pipe_gap_y = 260, pipe_velocity = - 4, pipe_passed = False\<rparr>],
     score = 0, game_over = True, pipe_spawn_counter = 15\<rparr>"


definition inputs_211 :: "frame_input list" where
  "inputs_211 = inputs_90 @ inputs_182 @ replicate 10 idle_frame @ replicate 2 idle_frame
     @ [idle_frame, jump_frame, idle_frame, idle_frame] @ replicate 13 idle_frame"

definition fall_32 :: Game where
  "fall_32 = \<lparr>bird = \<lparr>bird_x = 50, bird_y = 564, bird_size = 20, bird_velocity = 16\<rparr>,
     pipes = [], score = 0, game_over = False, pipe_spawn_counter = 32\<rparr>"

definition fall_33 :: Game where
  "fall_33 = \<lparr>bird = \<lparr>bird_x = 50, bird_y = 1161 / 2, bird_size = 20, bird_velocity = 33 / 2\<rparr>,
     pipes = [], score = 0, game_over = False, pipe_spawn_counter = 33\<rparr>"

text \<open>
  A state with three pipes next to each other, two of which cross the bird in the
  same frame while the third stops exactly at \<open>x + PIPE_WIDTH = 50\<close>. No run reaches
  it (the pipes of a run are 364 apart); it exercises the scoring loop on several
  crossings at once.
\<close>

definition crowd :: Game where
  "crowd = \<lparr>bird = \<lparr>bird_x = 50, bird_y = 300, bird_size = 20, bird_velocity = 0\<rparr>,
     pipes = [\<lparr>pipe_x = - 28, pipe_gap_y = 260, pipe_velocity = - 4, pipe_passed = False\<rparr>,
              \<lparr>pipe_x = - 27, pipe_gap_y = 260, pipe_velocity = - 4, pipe_passed = False\<rparr>,
              \<lparr>pipe_x = - 26, pipe_gap_y = 260, pipe_velocity = - 4, pipe_passed = False\<rparr>],
     score = 0, game_over = False, pipe_spawn_counter = 5\<rparr>"

section \<open>The steps of a frame, field by field\<close>

lemmas consts_defs =
  SCREEN_WIDTH_def SCREEN_HEIGHT_def PIPE_WIDTH_def PIPE_GAP_def GRAVITY_def JUMP_STRENGTH_def

lemma score_pipes_eq:
  "score_pipes bx ps s = (map (mark_passed bx) ps, s + int (length (filter (newly_passed bx) ps)))"
  by (induction ps arbitrary: s) (simp_all add: mark_passed_def newly_passed_def)

lemma collide_pipes_iff:
  "collide_pipes r ps over \<longleftrightarrow>
     over \<or> (\<exists>p\<in>set ps. colliderect r (get_upper_rect p) \<or> colliderect r (get_lower_rect p))"
  by (induction ps arbitrary: over) auto

lemma colliderect_strict:
  "0 < rect_w a \<Longrightarrow> 0 < rect_h a \<Longrightarrow> 0 < rect_w b \<Longrightarrow> 0 < rect_h b \<Longrightarrow>
   colliderect a b = strict_overlap a b"
  by (auto simp: colliderect_def strict_overlap_def rect_left_def rect_right_def rect_top_def
      rect_bottom_def)

lemma pipes_spawn_pipes:
  "pipes (spawn_pipes g rnd) =
     pipes g @ (if pipe_spawn_counter g + 1 > 90 then [Pipe_init SCREEN_WIDTH rnd] else [])"
  by (simp add: spawn_pipes_def Let_def)

lemma counter_spawn_pipes:
  "pipe_spawn_counter (spawn_pipes g rnd) =
     (if pipe_spawn_counter g + 1 > 90 then 0 else pipe_spawn_counter g + 1)"
  by (simp add: spawn_pipes_def Let_def)

lemma pipes_manage_pipes:
  "pipes (manage_pipes g rnd) =
     map (mark_passed (bird_x (bird g)))
       (filter (\<lambda>p. \<not> off_screen p) (pipes (spawn_pipes g rnd)))"
  by (simp add: manage_pipes_def Let_def score_pipes_eq spawn_pipes_def)

lemma score_manage_pipes:
  "score (manage_pipes g rnd) =
     score g + int (length (filter (newly_passed (bird_x (bird g)))
       (filter (\<lambda>p. \<not> off_screen p) (pipes (spawn_pipes g rnd)))))"
  by (simp add: manage_pipes_def Let_def score_pipes_eq spawn_pipes_def)

lemma other_manage_pipes:
  "bird (manage_pipes g rnd) = bird g"
  "game_over (manage_pipes g rnd) = game_over g"
  "pipe_spawn_counter (manage_pipes g rnd) = pipe_spawn_counter (spawn_pipes g rnd)"
  by (simp_all add: manage_pipes_def Let_def score_pipes_eq spawn_pipes_def)

lemma check_collisions_fields:
  "bird (check_collisions g) = bird g"
  "pipes (check_collisions g) = pipes g"
  "score (check_collisions g) = score g"
  "pipe_spawn_counter (check_collisions g) = pipe_spawn_counter g"
  by (simp_all add: check_collisions_def Let_def)

lemma game_over_check_collisions:
  "game_over (check_collisions g) \<longleftrightarrow>
     collide_pipes (get_rect (bird g)) (pipes g) (game_over g)
     \<or> rect_top (get_rect (bird g)) < 0
     \<or> rect_bottom (get_rect (bird g)) > SCREEN_HEIGHT"
  by (simp add: check_collisions_def Let_def)

lemma move_all_fields:
  "bird (move_all g) = Bird_move (bird g)"
  "pipes (move_all g) = map Pipe_move (pipes g)"
  "score (move_all g) = score g"
  "game_over (move_all g) = game_over g"
  "pipe_spawn_counter (move_all g) = pipe_spawn_counter g"
  by (simp_all add: move_all_def Let_def)

lemma Bird_move_fields:
  "bird_x (Bird_move b) = bird_x b"
  "bird_size (Bird_move b) = bird_size b"
  "bird_velocity (Bird_move b) = bird_velocity b + GRAVITY"
  "bird_y (Bird_move b) = bird_y b + (bird_velocity b + GRAVITY)"
  by (simp_all add: Bird_move_def Let_def)

lemma pipes_update:
  "pipes (update g rnd) =
     map (mark_passed (bird_x (bird g)))
       (filter (\<lambda>p. \<not> off_screen p)
          (map Pipe_move (pipes g) @
             (if pipe_spawn_counter g + 1 > 90 then [Pipe_init SCREEN_WIDTH rnd] else [])))"
  by (simp add: update_def check_collisions_fields pipes_manage_pipes pipes_spawn_pipes
      move_all_fields Bird_move_fields)

lemma counter_update:
  "pipe_spawn_counter (update g rnd) =
     (if pipe_spawn_counter g + 1 > 90 then 0 else pipe_spawn_counter g + 1)"
  by (simp add: update_def check_collisions_fields other_manage_pipes counter_spawn_pipes
      move_all_fields)

lemma bird_update: "bird (update g rnd) = Bird_move (bird g)"
  by (simp add: update_def check_collisions_fields other_manage_pipes move_all_fields)

lemma pipe_ok_step:
  assumes "pipe_ok c p" "\<not> off_screen (Pipe_move p)" "c' \<le> c + 1"
  shows "pipe_ok c' (mark_passed 50 (Pipe_move p))"
  using assms
  by (auto simp: pipe_ok_def mark_passed_def Pipe_move_def off_screen_def consts_defs)

lemma pipe_ok_new:
  assumes "PIPE_GAP \<le> rnd" "rnd \<le> SCREEN_HEIGHT - PIPE_GAP"
  shows "pipe_ok 0 (mark_passed 50 (Pipe_init SCREEN_WIDTH rnd))"
  using assms by (simp add: pipe_ok_def mark_passed_def Pipe_init_def consts_defs)

lemma pipe_x_mark_passed: "pipe_x (mark_passed bx p) = pipe_x p"
  by (simp add: mark_passed_def)

lemma pipe_x_Pipe_move: "pipe_x (Pipe_move p) = pipe_x p + pipe_velocity p"
  by (simp add: Pipe_move_def)

lemma spaced_moved:
  assumes "sorted_wrt (\<lambda>p q. pipe_x p + 364 \<le> pipe_x q) ps" "list_all (pipe_ok c) ps"
  shows "sorted_wrt (\<lambda>p q. pipe_x p + 364 \<le> pipe_x q) (map Pipe_move ps)"
  using assms
  by (induction ps) (auto simp: pipe_x_Pipe_move pipe_ok_def list_all_iff)

lemma game_inv_update:
  assumes inv: "game_inv g" and rnd: "PIPE_GAP \<le> rnd" "rnd \<le> SCREEN_HEIGHT - PIPE_GAP"
  shows "game_inv (update g rnd)"
proof -
  let ?c = "pipe_spawn_counter g"
  let ?c' = "pipe_spawn_counter (update g rnd)"
  let ?new = "if ?c + 1 > 90 then [Pipe_init SCREEN_WIDTH rnd] else []"
  let ?sp = "\<lambda>p q. pipe_x p + 364 \<le> pipe_x q"
  from inv have bx: "bird_x (bird g) = 50" and bs: "bird_size (bird g) = 20"
    and c: "0 \<le> ?c" "?c \<le> 90" and ok: "list_all (pipe_ok ?c) (pipes g)"
    and sp: "sorted_wrt ?sp (pipes g)"
    by (simp_all add: game_inv_def)
  have c': "?c' = (if ?c + 1 > 90 then 0 else ?c + 1)"
    by (rule counter_update)
  have c'_bounds: "0 \<le> ?c'" "?c' \<le> 90" "?c' \<le> ?c + 1"
    using c by (simp_all add: c')
  have ps': "pipes (update g rnd) =
      map (mark_passed 50) (filter (\<lambda>p. \<not> off_screen p) (map Pipe_move (pipes g) @ ?new))"
    by (simp add: pipes_update bx)
  have old_ok: "pipe_ok ?c' (mark_passed 50 (Pipe_move p))"
    if "p \<in> set (pipes g)" "\<not> off_screen (Pipe_move p)" for p
    using that ok c'_bounds(3) by (auto intro: pipe_ok_step simp: list_all_iff)
  have new_ok: "pipe_ok ?c' (mark_passed 50 q)" if "q \<in> set ?new" for q
    using that rnd pipe_ok_new [OF rnd] by (auto simp: c' split: if_splits)
  have ok': "list_all (pipe_ok ?c') (pipes (update g rnd))"
    unfolding ps' list_all_iff using old_ok new_ok by auto
  have moved_le: "pipe_x (Pipe_move p) + 364 \<le> SCREEN_WIDTH"
    if "p \<in> set (pipes g)" "?c + 1 > 90" for p
  proof -
    from that ok have "pipe_ok ?c p" by (simp add: list_all_iff)
    with that(2) c show ?thesis
      by (simp add: pipe_ok_def pipe_x_Pipe_move consts_defs)
  qed
  have "sorted_wrt ?sp (map Pipe_move (pipes g) @ ?new)"
    using spaced_moved [OF sp ok] moved_le
    by (auto simp: sorted_wrt_append Pipe_init_def)
  then have "sorted_wrt ?sp (filter (\<lambda>p. \<not> off_screen p) (map Pipe_move (pipes g) @ ?new))"
    by (rule sorted_wrt_filter)
  then have "sorted_wrt (\<lambda>p q. pipe_x (mark_passed 50 p) + 364 \<le> pipe_x (mark_passed 50 q))
      (filter (\<lambda>p. \<not> off_screen p) (map Pipe_move (pipes g) @ ?new))"
    by (simp only: pipe_x_mark_passed)
  then have sp': "sorted_wrt ?sp (pipes (update g rnd))"
    unfolding ps' sorted_wrt_map .
  show ?thesis
    unfolding game_inv_def
    using ok' sp' c'_bounds bx bs by (simp add: bird_update Bird_move_fields)
qed

lemma game_inv_reset: "game_inv reset_game"
  by (simp add: game_inv_def reset_game_def Bird_init_def)

lemma game_inv_handle_event:
  assumes "game_inv g" "handle_event g e = Some g'"
  shows "game_inv g'"
proof (cases e)
  case QUIT
  with assms show ?thesis by simp
next
  case OTHER_EVENT
  with assms show ?thesis by simp
next
  case (KEYDOWN k)
  show ?thesis
  proof (cases "game_over g \<and> k = K_SPACE")
    case True
    with assms KEYDOWN have "g' = reset_game" by (simp add: Let_def)
    then show ?thesis by (simp add: game_inv_reset)
  next
    case False
    with assms KEYDOWN have "g' = g \<or> g' = g\<lparr>bird := jump (bird g)\<rparr>"
      by (auto simp: Let_def split: if_splits)
    with assms(1) show ?thesis
      by (auto simp: game_inv_def jump_def)
  qed
qed

lemma game_inv_handle_events:
  assumes "game_inv g" "handle_events g es = Some g'"
  shows "game_inv g'"
  using assms
proof (induction es arbitrary: g)
  case Nil
  then show ?case by simp
next
  case (Cons e es)
  then show ?case
    by (auto split: option.splits dest: game_inv_handle_event)
qed

lemma game_inv_frame:
  assumes "game_inv g" "valid_input inp" "frame g inp = Some g'"
  shows "game_inv g'"
  using assms
  by (auto simp: frame_def valid_input_def split: option.splits if_splits
      dest: game_inv_handle_events intro: game_inv_update)

lemma reachable_game_inv: "reachable g \<Longrightarrow> game_inv g"
  by (induction rule: reachable.induct) (auto intro: game_inv_reset game_inv_frame)

lemma reachable_handle_events:
  assumes "reachable g" "handle_events g es = Some g1"
  shows "game_inv g1"
  using assms by (auto dest: reachable_game_inv game_inv_handle_events)

lemma reachable_run_frames:
  assumes "reachable g" "list_all valid_input inps" "run_frames g inps = Some g'"
  shows "reachable g'"
  using assms
proof (induction inps arbitrary: g)
  case Nil
  then show ?case by simp
next
  case (Cons i inps)
  then show ?case
    by (auto split: option.splits intro: reachable_frame)
qed

lemma run_frames_append:
  "run_frames g (xs @ ys) = (case run_frames g xs of None \<Rightarrow> None | Some g1 \<Rightarrow> run_frames g1 ys)"
  by (induction xs arbitrary: g) (simp_all split: option.splits)

section \<open>The sample run, evaluated\<close>

lemmas step_defs = consts_defs c_int_def Rect_def rect_top_def rect_bottom_def
  colliderect_def Bird_init_def jump_def Bird_move_def get_rect_def Pipe_init_def
  Pipe_move_def off_screen_def get_upper_rect_def get_lower_rect_def reset_game_def
  check_collisions_def spawn_pipes_def manage_pipes_def move_all_def update_def frame_def Let_def

text \<open>A run of \<open>n\<close> equal frames, unfolded one frame at a time.\<close>

lemma unfold_frames:
  "replicate (numeral n) (inp :: frame_input) = inp # replicate (numeral n - 1) inp"
  by (simp add: numeral_eq_Suc)

lemmas run_defs = jump_frame_def idle_frame_def unfold_frames step_defs

lemma valid_sample_frames: "valid_input jump_frame" "valid_input idle_frame"
  by (simp_all add: valid_input_def jump_frame_def idle_frame_def consts_defs)

lemma list_all_replicate: "P x \<Longrightarrow> list_all P (replicate n x)"
  by (simp add: list_all_iff)

lemma run_90: "run_frames reset_game inputs_90 = Some state_90"
  by (simp add: inputs_90_def state_90_def run_defs)

lemma run_182: "run_frames state_90 inputs_182 = Some state_182"
  by (simp add: inputs_182_def state_90_def state_182_def run_defs)

lemma run_192: "run_frames state_182 (replicate 10 idle_frame) = Some state_192"
  by (simp add: state_182_def state_192_def run_defs)

lemma run_194: "run_frames state_192 (replicate 2 idle_frame) = Some state_194"
  by (simp add: state_192_def state_194_def run_defs)

lemma run_198:
  "run_frames state_194 [idle_frame, jump_frame, idle_frame, idle_frame] = Some state_198"
  by (simp add: state_194_def state_198_def run_defs)

lemma run_211: "run_frames state_198 (replicate 13 idle_frame) = Some state_211"
  by (simp add: state_198_def state_211_def run_defs)

lemma run_crash: "run_frames state_182 (replicate 14 idle_frame) = Some crash_196"
  by (simp add: state_182_def crash_196_def run_defs)

lemma update_crash: "update crash_196 260 = over_197"
  by (simp add: crash_196_def over_197_def step_defs)

lemma reachable_state_90: "reachable state_90"
  by (rule reachable_run_frames [OF reachable_init _ run_90])
    (simp add: inputs_90_def valid_sample_frames list_all_replicate)

lemma reachable_state_182: "reachable state_182"
  by (rule reachable_run_frames [OF reachable_state_90 _ run_182])
    (simp add: inputs_182_def valid_sample_frames list_all_replicate)

lemma reachable_state_192: "reachable state_192"
  by (rule reachable_run_frames [OF reachable_state_182 _ run_192])
    (simp add: valid_sample_frames list_all_replicate)

lemma reachable_state_194: "reachable state_194"
  by (rule reachable_run_frames [OF reachable_state_192 _ run_194])
    (simp add: valid_sample_frames list_all_replicate)

lemma reachable_state_198: "reachable state_198"
  by (rule reachable_run_frames [OF reachable_state_194 _ run_198])
    (simp add: valid_sample_frames)

lemma reachable_state_211: "reachable state_211"
  by (rule reachable_run_frames [OF reachable_state_198 _ run_211])
    (simp add: valid_sample_frames list_all_replicate)

lemma reachable_crash_196: "reachable crash_196"
  by (rule reachable_run_frames [OF reachable_state_182 _ run_crash])
    (simp add: valid_sample_frames list_all_replicate)

lemma frame_crash: "frame crash_196 idle_frame = Some over_197"
  using update_crash by (simp add: frame_def idle_frame_def crash_196_def)


lemma run_211_from_start: "run_frames reset_game inputs_211 = Some state_211"
  by (simp only: inputs_211_def run_frames_append run_90 run_182 run_192 run_194 run_198 run_211
      option.case)

lemma valid_inputs_211: "list_all valid_input inputs_211"
  by (simp add: inputs_211_def inputs_90_def inputs_182_def valid_sample_frames list_all_replicate)

lemma run_fall_32: "run_frames reset_game (replicate 32 idle_frame) = Some fall_32"
  by (simp add: fall_32_def run_defs)

lemma reachable_fall_32: "reachable fall_32"
  by (rule reachable_run_frames [OF reachable_init _ run_fall_32])
    (simp add: valid_sample_frames list_all_replicate)

lemma frame_fall_33: "frame fall_32 idle_frame = Some fall_33"
  by (simp add: fall_32_def fall_33_def idle_frame_def step_defs)

section \<open>Collision detection\<close>

lemma pipe_rects_strict:
  assumes "pipe_ok c p" "bird_size b = 20"
  shows "colliderect (get_rect b) (get_upper_rect p)
           = strict_overlap (get_rect b) (get_upper_rect p)"
    and "colliderect (get_rect b) (get_lower_rect p)
           = strict_overlap (get_rect b) (get_lower_rect p)"
  using assms
  by (simp_all add: colliderect_strict pipe_ok_def get_rect_def get_upper_rect_def
      get_lower_rect_def Rect_def consts_defs)

lemma pipe_rects_explicit:
  "get_upper_rect p = \<lparr>rect_x = pipe_x p, rect_y = 0, rect_w = PIPE_WIDTH,
      rect_h = pipe_gap_y p - PIPE_GAP div 2\<rparr>"
  "get_lower_rect p = \<lparr>rect_x = pipe_x p, rect_y = pipe_gap_y p + PIPE_GAP div 2,
      rect_w = PIPE_WIDTH, rect_h = SCREEN_HEIGHT\<rparr>"
  by (simp_all add: get_upper_rect_def get_lower_rect_def Rect_def)

lemma get_rect_explicit:
  "get_rect b = \<lparr>rect_x = bird_x b,
      rect_y = (if 0 \<le> bird_y b then \<lfloor>bird_y b\<rfloor> else \<lceil>bird_y b\<rceil>),
      rect_w = bird_size b, rect_h = bird_size b\<rparr>"
  by (simp add: get_rect_def Rect_def c_int_def)

text \<open>
  C1 (as the code has it). In a frame that is evaluated while Playing (the game is not
  over once the events of the frame are handled), let \<open>b\<close> be the bird after its move
  and \<open>ps\<close> the pipes after they have moved and been managed. The box that is tested
  is the integer rectangle that \<^verbatim>\<open>get_rect\<close> builds: left edge \<open>x = 50\<close>, side
  \<open>size = 20\<close>, and top edge the float \<open>y\<close> truncated toward zero. The game is over at
  the end of the frame if and only if this box overlaps strictly the upper rectangle
  (from \<open>y = 0\<close>, of height \<open>gap_y - PIPE_GAP // 2\<close>) or the lower rectangle (from
  \<open>gap_y + PIPE_GAP // 2\<close>, of height \<open>SCREEN_HEIGHT\<close>) of one of the pipes \<open>ps\<close>, or
  its top is \<open>< 0\<close>, or its bottom is \<open>> SCREEN_HEIGHT\<close>. The detection moves nothing.
\<close>

theorem collision_iff:
  assumes "reachable g" and "valid_input inp"
    and "handle_events g (events inp) = Some g1" and "\<not> game_over g1"
    and "b = Bird_move (bird g1)"
    and "ps = pipes (manage_pipes (move_all g1) (randint inp))"
    and "box = \<lparr>rect_x = bird_x b,
           rect_y = (if 0 \<le> bird_y b then \<lfloor>bird_y b\<rfloor> else \<lceil>bird_y b\<rceil>),
           rect_w = bird_size b, rect_h = bird_size b\<rparr>"
  shows "frame g inp = Some (update g1 (randint inp))
    \<and> bird (update g1 (randint inp)) = b
    \<and> pipes (update g1 (randint inp)) = ps
    \<and> get_rect b = box
    \<and> bird_x b = 50 \<and> bird_size b = 20
    \<and> bird_y b = bird_y (bird g1) + (bird_velocity (bird g1) + GRAVITY)
    \<and> (game_over (update g1 (randint inp)) \<longleftrightarrow>
         (\<exists>p\<in>set ps.
             strict_overlap box \<lparr>rect_x = pipe_x p, rect_y = 0, rect_w = PIPE_WIDTH,
               rect_h = pipe_gap_y p - PIPE_GAP div 2\<rparr>
           \<or> strict_overlap box \<lparr>rect_x = pipe_x p, rect_y = pipe_gap_y p + PIPE_GAP div 2,
               rect_w = PIPE_WIDTH, rect_h = SCREEN_HEIGHT\<rparr>)
       \<or> rect_y box < 0
       \<or> rect_y box + rect_h box > SCREEN_HEIGHT)"
proof -
  let ?r = "randint inp"
  let ?g2 = "manage_pipes (move_all g1) ?r"
  let ?g' = "update g1 ?r"
  have inv1: "game_inv g1"
    using assms(1,3) by (rule reachable_handle_events)
  have "game_inv ?g'"
    using inv1 assms(2) by (auto simp: valid_input_def intro: game_inv_update)
  then have size: "bird_size (bird ?g') = 20" and bx: "bird_x (bird ?g') = 50"
    and ok: "list_all (pipe_ok (pipe_spawn_counter ?g')) (pipes ?g')"
    by (simp_all add: game_inv_def)
  have fr: "frame g inp = Some ?g'"
    using assms(3,4) by (simp add: frame_def)
  have b: "bird ?g' = b" "bird ?g2 = b"
    by (simp_all add: assms(5) bird_update other_manage_pipes move_all_fields)
  have ps: "pipes ?g' = ps" "pipes ?g2 = ps"
    by (simp_all add: assms(6) update_def check_collisions_fields)
  have box: "get_rect b = box"
    unfolding assms(7) by (rule get_rect_explicit)
  have not_over: "\<not> game_over ?g2"
    using assms(4) by (simp add: other_manage_pipes move_all_fields)
  have c: "game_over ?g' \<longleftrightarrow>
      (\<exists>p\<in>set ps. colliderect box (get_upper_rect p) \<or> colliderect box (get_lower_rect p))
      \<or> rect_top box < 0 \<or> rect_bottom box > SCREEN_HEIGHT"
    using not_over
    by (simp add: update_def game_over_check_collisions collide_pipes_iff b ps box)
  have s: "colliderect box (get_upper_rect p) = strict_overlap box (get_upper_rect p)"
    "colliderect box (get_lower_rect p) = strict_overlap box (get_lower_rect p)"
    if "p \<in> set ps" for p
  proof -
    from that ok have "pipe_ok (pipe_spawn_counter ?g') p"
      by (simp add: list_all_iff ps)
    moreover have "bird_size b = 20"
      using size by (simp add: b)
    ultimately show "colliderect box (get_upper_rect p) = strict_overlap box (get_upper_rect p)"
      and "colliderect box (get_lower_rect p) = strict_overlap box (get_lower_rect p)"
      unfolding box [symmetric] by (rule pipe_rects_strict)+
  qed
  have "game_over ?g' \<longleftrightarrow>
      (\<exists>p\<in>set ps. strict_overlap box (get_upper_rect p) \<or> strict_overlap box (get_lower_rect p))
      \<or> rect_y box < 0 \<or> rect_y box + rect_h box > SCREEN_HEIGHT"
    unfolding c using s by (auto simp: rect_top_def rect_bottom_def)
  then have "game_over ?g' \<longleftrightarrow>
         (\<exists>p\<in>set ps.
             strict_overlap box \<lparr>rect_x = pipe_x p, rect_y = 0, rect_w = PIPE_WIDTH,
               rect_h = pipe_gap_y p - PIPE_GAP div 2\<rparr>
           \<or> strict_overlap box \<lparr>rect_x = pipe_x p, rect_y = pipe_gap_y p + PIPE_GAP div 2,
               rect_w = PIPE_WIDTH, rect_h = SCREEN_HEIGHT\<rparr>)
       \<or> rect_y box < 0
       \<or> rect_y box + rect_h box > SCREEN_HEIGHT"
    by (simp only: pipe_rects_explicit)
  moreover have "bird_y b = bird_y (bird g1) + (bird_velocity (bird g1) + GRAVITY)"
    by (simp add: assms(5) Bird_move_fields)
  ultimately show ?thesis
    using fr b(1) ps(1) box size bx by simp
qed

theorem collision_iff_witness:
  "reachable crash_196 \<and> valid_input idle_frame
   \<and> handle_events crash_196 (events idle_frame) = Some crash_196 \<and> \<not> game_over crash_196
   \<and> frame crash_196 idle_frame = Some over_197 \<and> game_over over_197
   \<and> bird_y (bird over_197) = 641 / 2
   \<and> strict_overlap \<lparr>rect_x = 50, rect_y = 320, rect_w = 20, rect_h = 20\<rparr>
        \<lparr>rect_x = - 24, rect_y = 335, rect_w = 80, rect_h = 600\<rparr>"
proof -
  have h: "handle_events crash_196 (events idle_frame) = Some crash_196"
    by (simp add: idle_frame_def)
  have n: "\<not> game_over crash_196"
    by (simp add: crash_196_def)
  have r: "randint idle_frame = 260"
    by (simp add: idle_frame_def)
  have "game_over (update crash_196 260)"
    using collision_iff [OF reachable_crash_196 valid_sample_frames(2) h n refl refl refl]
    unfolding r
    by (simp add: crash_196_def strict_overlap_def rect_left_def rect_right_def rect_top_def
        rect_bottom_def step_defs)
  then show ?thesis
    using reachable_crash_196 valid_sample_frames(2) h n frame_crash
    by (simp add: update_crash over_197_def strict_overlap_def rect_left_def rect_right_def
        rect_top_def rect_bottom_def)
qed

text \<open>
  C1 (as the specification has it, with the box anchored at the float \<open>y\<close>) fails:
  after 33 frames without a key press the bird is at \<open>y = 580.5\<close>, the bottom of its
  box is \<open>600.5 > SCREEN_HEIGHT\<close>, and the game is still Playing, because the
  rectangle of \<^verbatim>\<open>get_rect\<close> starts at 580 and ends at 600.
\<close>

theorem float_box_counterexample:
  "reachable fall_32 \<and> \<not> game_over fall_32
   \<and> frame fall_32 idle_frame = Some fall_33
   \<and> spec_box_bottom (bird fall_33) > of_int SCREEN_HEIGHT
   \<and> \<not> game_over fall_33"
  using reachable_fall_32 frame_fall_33
  by (simp add: fall_32_def fall_33_def spec_box_bottom_def SCREEN_HEIGHT_def)

section \<open>Scoring\<close>

lemma count_newly_passed:
  "length (filter (\<lambda>(p, q). \<not> pipe_passed p \<and> pipe_passed q) (zip ps (map (mark_passed bx) ps)))
     = length (filter (newly_passed bx) ps)"
  by (induction ps) (auto simp: mark_passed_def newly_passed_def)

lemma passed_mark_passed:
  "pipe_passed (mark_passed bx p) \<longleftrightarrow> pipe_passed p \<or> pipe_x p + PIPE_WIDTH < bx"
  by (auto simp: mark_passed_def)

lemma gap_mark_passed:
  "pipe_gap_y (mark_passed bx p) = pipe_gap_y p" "pipe_velocity (mark_passed bx p) = pipe_velocity p"
  by (simp_all add: mark_passed_def)

lemma game_inv_flags_consistent: "game_inv g \<Longrightarrow> flags_consistent g"
  by (auto simp: game_inv_def flags_consistent_def list_all_iff pipe_ok_def consts_defs)

lemma velocity_mark_passed: "pipe_velocity (mark_passed bx p) = pipe_velocity p"
  by (simp add: mark_passed_def)

text \<open>
  C2. In every frame that is evaluated while Playing, from any state, let \<open>before\<close> be
  the pipes that the scoring loop runs over and \<open>after\<close> the same pipes at the end of
  the frame. The loop changes no position; a flag \<open>passed\<close> that is set stays set (and
  pipes are created with the flag unset), so it is set at most once; the loop sets the
  flag of exactly the unflagged pipes whose trailing edge \<open>x + PIPE_WIDTH\<close> is strictly
  left of the bird's \<open>x\<close>; and the score grows by exactly the number of flags set in
  this frame, however many pipes cross at once. When the flags are consistent at the
  start of the frame, as they are in every state of a run, the flag is set exactly in
  the frame whose move takes the trailing edge strictly past the bird for the first time.
\<close>

theorem score_counts_passed:
  assumes "handle_events g (events inp) = Some g1" and "\<not> game_over g1"
    and "before = filter (\<lambda>p. \<not> off_screen p) (pipes (spawn_pipes (move_all g1) (randint inp)))"
    and "after = pipes (update g1 (randint inp))"
    and "bx = bird_x (bird g1)"
  shows "frame g inp = Some (update g1 (randint inp))
    \<and> length after = length before
    \<and> (\<forall>i<length before.
          pipe_x (after ! i) = pipe_x (before ! i)
        \<and> pipe_gap_y (after ! i) = pipe_gap_y (before ! i)
        \<and> pipe_velocity (after ! i) = pipe_velocity (before ! i)
        \<and> (pipe_passed (before ! i) \<longrightarrow> pipe_passed (after ! i))
        \<and> (\<not> pipe_passed (before ! i) \<and> pipe_passed (after ! i) \<longleftrightarrow>
             \<not> pipe_passed (before ! i) \<and> pipe_x (before ! i) + PIPE_WIDTH < bx))
    \<and> score (update g1 (randint inp)) = score g1
         + int (length (filter (\<lambda>(p, q). \<not> pipe_passed p \<and> pipe_passed q) (zip before after)))
    \<and> score (update g1 (randint inp)) = score g1
         + int (length (filter (\<lambda>p. \<not> pipe_passed p \<and> pipe_x p + PIPE_WIDTH < bx) before))
    \<and> (flags_consistent g1 \<longrightarrow>
         (\<forall>i<length before.
            (pipe_passed (after ! i) \<longleftrightarrow> pipe_x (after ! i) + PIPE_WIDTH < bx)
          \<and> (\<not> pipe_passed (before ! i) \<and> pipe_passed (after ! i) \<longleftrightarrow>
               pipe_x (after ! i) + PIPE_WIDTH < bx
             \<and> \<not> pipe_x (after ! i) - pipe_velocity (after ! i) + PIPE_WIDTH < bx)))
    \<and> (reachable g \<longrightarrow> flags_consistent g1 \<and> bx = 50)"
proof -
  let ?r = "randint inp"
  let ?new = "if pipe_spawn_counter g1 + 1 > 90 then [Pipe_init SCREEN_WIDTH ?r] else []"
  have fr: "frame g inp = Some (update g1 ?r)"
    using assms(1,2) by (simp add: frame_def)
  have before: "before = filter (\<lambda>p. \<not> off_screen p) (map Pipe_move (pipes g1) @ ?new)"
    unfolding assms(3) by (simp add: pipes_spawn_pipes move_all_fields)
  have after: "after = map (mark_passed bx) before"
    unfolding assms(4) before by (simp add: pipes_update assms(5))
  have sc: "score (update g1 ?r) = score g1 + int (length (filter (newly_passed bx) before))"
    unfolding assms(3,5)
    by (simp add: update_def check_collisions_fields score_manage_pipes move_all_fields
        Bird_move_fields)
  have each: "pipe_x (after ! i) = pipe_x (before ! i)
        \<and> pipe_gap_y (after ! i) = pipe_gap_y (before ! i)
        \<and> pipe_velocity (after ! i) = pipe_velocity (before ! i)
        \<and> (pipe_passed (before ! i) \<longrightarrow> pipe_passed (after ! i))
        \<and> (\<not> pipe_passed (before ! i) \<and> pipe_passed (after ! i) \<longleftrightarrow>
             \<not> pipe_passed (before ! i) \<and> pipe_x (before ! i) + PIPE_WIDTH < bx)"
    if "i < length before" for i
  proof -
    have "after ! i = mark_passed bx (before ! i)"
      using that by (simp add: after)
    then show ?thesis
      by (auto simp: pipe_x_mark_passed gap_mark_passed passed_mark_passed)
  qed
  have len: "length after = length before"
    by (simp add: after)
  have count1: "score (update g1 ?r) = score g1
         + int (length (filter (\<lambda>(p, q). \<not> pipe_passed p \<and> pipe_passed q) (zip before after)))"
    unfolding sc after by (simp only: count_newly_passed)
  have "newly_passed bx = (\<lambda>p. \<not> pipe_passed p \<and> pipe_x p + PIPE_WIDTH < bx)"
    by (auto simp: newly_passed_def)
  with sc have count2: "score (update g1 ?r) = score g1
         + int (length (filter (\<lambda>p. \<not> pipe_passed p \<and> pipe_x p + PIPE_WIDTH < bx) before))"
    by simp
  have first: "(pipe_passed (after ! i) \<longleftrightarrow> pipe_x (after ! i) + PIPE_WIDTH < bx)
          \<and> (\<not> pipe_passed (before ! i) \<and> pipe_passed (after ! i) \<longleftrightarrow>
               pipe_x (after ! i) + PIPE_WIDTH < bx
             \<and> \<not> pipe_x (after ! i) - pipe_velocity (after ! i) + PIPE_WIDTH < bx)"
    if fc: "flags_consistent g1" and i: "i < length before" for i
  proof -
    let ?q = "before ! i"
    from i have "?q \<in> set before" by simp
    then have "?q \<in> Pipe_move ` set (pipes g1) \<or> ?q \<in> set ?new"
      unfolding before by auto
    then have old: "pipe_velocity ?q < 0
        \<and> (pipe_passed ?q \<longleftrightarrow> pipe_x ?q - pipe_velocity ?q + PIPE_WIDTH < bx)"
    proof
      assume "?q \<in> Pipe_move ` set (pipes g1)"
      then obtain p where "p \<in> set (pipes g1)" "?q = Pipe_move p" by auto
      with fc show ?thesis
        by (auto simp: flags_consistent_def list_all_iff Pipe_move_def assms(5))
    next
      assume "?q \<in> set ?new"
      then have "?q = Pipe_init SCREEN_WIDTH ?r" by (simp split: if_splits)
      with fc show ?thesis
        by (simp add: Pipe_init_def flags_consistent_def assms(5))
    qed
    have a: "after ! i = mark_passed bx ?q"
      using i by (simp add: after)
    show ?thesis
      unfolding a using old
      by (auto simp: pipe_x_mark_passed velocity_mark_passed passed_mark_passed)
  qed
  have reach: "flags_consistent g1 \<and> bx = 50" if "reachable g"
  proof -
    from that assms(1) have "game_inv g1" by (rule reachable_handle_events)
    then show ?thesis
      by (simp add: game_inv_flags_consistent assms(5) game_inv_def)
  qed
  from fr len each count1 count2 first reach show ?thesis by blast
qed

theorem score_counts_passed_witness:
  "handle_events crowd (events idle_frame) = Some crowd \<and> \<not> game_over crowd
   \<and> flags_consistent crowd
   \<and> map pipe_x (pipes (update crowd (randint idle_frame))) = [- 32, - 31, - 30]
   \<and> map pipe_passed (filter (\<lambda>p. \<not> off_screen p)
        (pipes (spawn_pipes (move_all crowd) (randint idle_frame)))) = [False, False, False]
   \<and> map pipe_passed (pipes (update crowd (randint idle_frame))) = [True, True, False]
   \<and> score crowd = 0
   \<and> score (update crowd (randint idle_frame)) = 2
   \<and> reachable state_198
   \<and> handle_events state_198 (events idle_frame) = Some state_198 \<and> \<not> game_over state_198
   \<and> map pipe_passed (pipes (update state_198 (randint idle_frame))) = [True, False]
   \<and> score (update state_198 (randint idle_frame)) = score state_198 + 1"
proof -
  have h: "handle_events crowd (events idle_frame) = Some crowd"
    "handle_events state_198 (events idle_frame) = Some state_198"
    by (simp_all add: idle_frame_def)
  have n: "\<not> game_over crowd" "\<not> game_over state_198"
    by (simp_all add: crowd_def state_198_def)
  have fc: "flags_consistent crowd"
    by (simp add: flags_consistent_def crowd_def consts_defs)
  have b: "filter (\<lambda>p. \<not> off_screen p) (pipes (spawn_pipes (move_all crowd) (randint idle_frame)))
      = [\<lparr>pipe_x = - 32, pipe_gap_y = 260, pipe_velocity = - 4, pipe_passed = False\<rparr>,
         \<lparr>pipe_x = - 31, pipe_gap_y = 260, pipe_velocity = - 4, pipe_passed = False\<rparr>,
         \<lparr>pipe_x = - 30, pipe_gap_y = 260, pipe_velocity = - 4, pipe_passed = False\<rparr>]"
    by (simp add: crowd_def idle_frame_def step_defs)
  have a: "pipes (update crowd (randint idle_frame))
      = [\<lparr>pipe_x = - 32, pipe_gap_y = 260, pipe_velocity = - 4, pipe_passed = True\<rparr>,
         \<lparr>pipe_x = - 31, pipe_gap_y = 260, pipe_velocity = - 4, pipe_passed = True\<rparr>,
         \<lparr>pipe_x = - 30, pipe_gap_y = 260, pipe_velocity = - 4, pipe_passed = False\<rparr>]"
    by (simp add: crowd_def idle_frame_def step_defs)
  have b2: "filter (\<lambda>p. \<not> off_screen p)
        (pipes (spawn_pipes (move_all state_198) (randint idle_frame)))
      = [\<lparr>pipe_x = - 32, pipe_gap_y = 260, pipe_velocity = - 4, pipe_passed = False\<rparr>,
         \<lparr>pipe_x = 332, pipe_gap_y = 260, pipe_velocity = - 4, pipe_passed = False\<rparr>]"
    by (simp add: state_198_def idle_frame_def step_defs)
  have a2: "pipes (update state_198 (randint idle_frame))
      = [\<lparr>pipe_x = - 32, pipe_gap_y = 260, pipe_velocity = - 4, pipe_passed = True\<rparr>,
         \<lparr>pipe_x = 332, pipe_gap_y = 260, pipe_velocity = - 4, pipe_passed = False\<rparr>]"
    by (simp add: state_198_def idle_frame_def step_defs)
  have s: "score crowd = 0"
    by (simp add: crowd_def)
  have "score (update crowd (randint idle_frame)) = 2"
    using score_counts_passed [OF h(1) n(1) refl refl refl]
    unfolding a b s by simp
  moreover have "score (update state_198 (randint idle_frame)) = score state_198 + 1"
    using score_counts_passed [OF h(2) n(2) refl refl refl] reachable_state_198
    unfolding a2 b2 by simp
  ultimately show ?thesis
    using h n fc s reachable_state_198 by (simp add: a b a2)
qed

section \<open>The order of moving and spawning\<close>

lemma map_pipe_x_update:
  "map pipe_x (pipes (update g rnd)) =
     filter (\<lambda>x. \<not> x < - PIPE_WIDTH) (map (\<lambda>p. pipe_x p + pipe_velocity p) (pipes g))
       @ (if pipe_spawn_counter g + 1 > 90 then [SCREEN_WIDTH] else [])"
proof -
  let ?new = "if pipe_spawn_counter g + 1 > 90 then [Pipe_init SCREEN_WIDTH rnd] else []"
  have f: "map pipe_x (filter (\<lambda>p. \<not> off_screen p) ps)
      = filter (\<lambda>x. \<not> x < - PIPE_WIDTH) (map pipe_x ps)" for ps
    by (induction ps) (simp_all add: off_screen_def)
  have m: "map pipe_x (map (mark_passed bx) ps) = map pipe_x ps" for bx ps
    by (simp add: pipe_x_mark_passed)
  have v: "map pipe_x (map Pipe_move ps) = map (\<lambda>p. pipe_x p + pipe_velocity p) ps" for ps
    by (simp add: pipe_x_Pipe_move)
  have n: "filter (\<lambda>x. \<not> x < - PIPE_WIDTH) (map pipe_x ?new)
      = (if pipe_spawn_counter g + 1 > 90 then [SCREEN_WIDTH] else [])"
    by (simp add: Pipe_init_def consts_defs)
  have "map pipe_x (pipes (update g rnd))
      = filter (\<lambda>x. \<not> x < - PIPE_WIDTH) (map pipe_x (map Pipe_move (pipes g) @ ?new))"
    unfolding pipes_update m f ..
  also have "\<dots> = filter (\<lambda>x. \<not> x < - PIPE_WIDTH) (map pipe_x (map Pipe_move (pipes g)))
      @ filter (\<lambda>x. \<not> x < - PIPE_WIDTH) (map pipe_x ?new)"
    by (simp only: map_append filter_append)
  finally show ?thesis
    unfolding v n .
qed

text \<open>
  C3 (as the code has it). \<^verbatim>\<open>run\<close> first moves every existing pipe by its velocity;
  \<^verbatim>\<open>_manage_pipes\<close> then increments the spawn counter and, when it exceeds 90, appends
  a new pipe at \<open>x = SCREEN_WIDTH\<close> and resets the counter to 0. So the positions at the
  end of a frame are those of the old pipes, moved (and still on screen), followed by
  \<open>SCREEN_WIDTH\<close> itself for a pipe spawned in this frame: the new pipe has not moved.
\<close>

theorem move_then_spawn:
  "pipes (move_all g) = map Pipe_move (pipes g)
   \<and> pipes (spawn_pipes (move_all g) rnd) =
       map Pipe_move (pipes g)
         @ (if pipe_spawn_counter g + 1 > 90 then [Pipe_init SCREEN_WIDTH rnd] else [])
   \<and> pipe_spawn_counter (update g rnd) =
       (if pipe_spawn_counter g + 1 > 90 then 0 else pipe_spawn_counter g + 1)
   \<and> map pipe_x (pipes (update g rnd)) =
       filter (\<lambda>x. \<not> x < - PIPE_WIDTH) (map (\<lambda>p. pipe_x p + pipe_velocity p) (pipes g))
         @ (if pipe_spawn_counter g + 1 > 90 then [SCREEN_WIDTH] else [])"
  by (simp add: pipes_spawn_pipes move_all_fields counter_update map_pipe_x_update)

text \<open>
  C3 (as the specification has it) fails: after 90 frames of the sample run the counter
  is 90, frame 91 spawns a pipe, and at the end of that frame, when the collisions are
  checked, the pipe is at \<open>x = SCREEN_WIDTH\<close>, not left of it.
\<close>

theorem spawned_pipe_not_advanced_counterexample:
  "reachable state_90 \<and> \<not> game_over state_90 \<and> pipe_spawn_counter state_90 = 90
   \<and> pipes state_90 = []
   \<and> frame state_90 idle_frame = Some (update state_90 260)
   \<and> map pipe_x (pipes (update state_90 260)) = [SCREEN_WIDTH]
   \<and> \<not> pipe_x (last (pipes (update state_90 260))) < SCREEN_WIDTH"
proof -
  have "pipes (update state_90 260) = [Pipe_init SCREEN_WIDTH 260]"
    by (simp add: state_90_def step_defs)
  moreover have "frame state_90 idle_frame = Some (update state_90 260)"
    by (simp add: frame_def idle_frame_def state_90_def)
  ultimately show ?thesis
    using reachable_state_90 by (simp add: state_90_def Pipe_init_def)
qed

section \<open>Removing pipes that have left the screen\<close>

lemma pipes_on_screen:
  assumes "game_inv g" "p \<in> set (pipes g)"
  shows "0 \<le> pipe_x p + PIPE_WIDTH"
  using assms by (auto simp: game_inv_def list_all_iff pipe_ok_def)

text \<open>
  C5 (as the code has it). \<open>off_screen\<close> holds exactly when the trailing edge
  \<open>x + PIPE_WIDTH\<close> is left of the screen, so only after the leading edge \<open>x\<close> is. The
  removal pass of a frame keeps exactly the pipes whose trailing edge, after this frame's
  move, is not left of the screen: a pipe is removed on the very frame its trailing
  edge leaves, never before and never later, and no reachable state holds a pipe that
  is off the screen.
\<close>

theorem removal_at_trailing_edge:
  "(off_screen p \<longleftrightarrow> pipe_x p + PIPE_WIDTH < 0)
   \<and> (off_screen p \<longrightarrow> pipe_x p < 0)
   \<and> map pipe_x (pipes (update g rnd)) =
       filter (\<lambda>x. \<not> x + PIPE_WIDTH < 0) (map pipe_x (pipes (spawn_pipes (move_all g) rnd)))
   \<and> (reachable g \<longrightarrow> (\<forall>q\<in>set (pipes g). \<not> off_screen q))"
proof -
  have a: "off_screen p \<longleftrightarrow> pipe_x p + PIPE_WIDTH < 0"
    by (auto simp: off_screen_def)
  have b: "off_screen p \<longrightarrow> pipe_x p < 0"
    by (simp add: off_screen_def consts_defs)
  have f: "map pipe_x (filter (\<lambda>p. \<not> off_screen p) ps)
      = filter (\<lambda>x. \<not> x + PIPE_WIDTH < 0) (map pipe_x ps)" for ps
    by (induction ps) (auto simp: off_screen_def)
  have "pipes (update g rnd) = map (mark_passed (bird_x (bird g)))
      (filter (\<lambda>p. \<not> off_screen p) (pipes (spawn_pipes (move_all g) rnd)))"
    by (simp add: pipes_update pipes_spawn_pipes move_all_fields)
  then have c: "map pipe_x (pipes (update g rnd)) =
       filter (\<lambda>x. \<not> x + PIPE_WIDTH < 0) (map pipe_x (pipes (spawn_pipes (move_all g) rnd)))"
    by (simp add: pipe_x_mark_passed f [symmetric])
  have d: "reachable g \<longrightarrow> (\<forall>q\<in>set (pipes g). \<not> off_screen q)"
  proof (intro impI ballI)
    fix q
    assume "reachable g" and "q \<in> set (pipes g)"
    then have "0 \<le> pipe_x q + PIPE_WIDTH"
      by (auto dest: reachable_game_inv pipes_on_screen)
    then show "\<not> off_screen q"
      by (simp add: off_screen_def)
  qed
  from a b c d show ?thesis by blast
qed

theorem removal_at_trailing_edge_witness:
  "reachable state_211
   \<and> map pipe_x (pipes state_211) = [- 80, 284]
   \<and> \<not> off_screen (hd (pipes state_211))
   \<and> map pipe_x (pipes (spawn_pipes (move_all state_211) 260)) = [- 84, 280]
   \<and> off_screen (Pipe_move (hd (pipes state_211)))
   \<and> pipe_x (Pipe_move (hd (pipes state_211))) < 0
   \<and> map pipe_x (pipes (update state_211 260)) = [280]"
proof -
  have m: "map pipe_x (pipes (spawn_pipes (move_all state_211) 260)) = [- 84, 280]"
    by (simp add: state_211_def step_defs)
  have h: "pipe_x (Pipe_move (hd (pipes state_211))) = - 84"
    by (simp add: state_211_def Pipe_move_def)
  have q: "hd (pipes state_211) \<in> set (pipes state_211)"
    by (simp add: state_211_def)
  show ?thesis
    using removal_at_trailing_edge [of "Pipe_move (hd (pipes state_211))" state_211 260]
      removal_at_trailing_edge [of "hd (pipes state_211)" state_211 260]
      reachable_state_211 q
    unfolding m h
    by (simp add: consts_defs state_211_def)
qed

text \<open>
  C5 (as the specification has it) fails on the leading edge: after 192 frames of the
  sample run the leading edge of the first pipe has left the screen (\<open>x = -4\<close>), and two
  frames later the pipe is still there (\<open>x = -12\<close>). It stays until its trailing edge
  leaves, twenty frames after the leading edge.
\<close>

theorem retained_past_leading_edge_counterexample:
  "reachable state_192 \<and> \<not> game_over state_192
   \<and> map pipe_x (pipes state_192) = [- 4, 360]
   \<and> pipe_x (hd (pipes state_192)) < 0
   \<and> run_frames state_192 [idle_frame, idle_frame] = Some state_194
   \<and> map pipe_x (pipes state_194) = [- 12, 352]
   \<and> pipe_gap_y (hd (pipes state_194)) = pipe_gap_y (hd (pipes state_192))"
proof -
  have "run_frames state_192 [idle_frame, idle_frame] = Some state_194"
    using run_194 by (simp add: unfold_frames)
  then show ?thesis
    using reachable_state_192 by (simp add: state_192_def state_194_def)
qed

section \<open>The order of the pipes\<close>

text \<open>
  C6 (as the code has it). New pipes are appended at the end of the list, at the right
  edge of the screen, so in every reachable state the list is sorted by \<open>x\<close> strictly
  ascending: a pipe earlier in the list has a smaller \<open>x\<close> than a later one.
\<close>

theorem pipes_sorted_ascending:
  assumes "reachable g"
  shows "sorted_wrt (\<lambda>p q. pipe_x p < pipe_x q) (pipes g)"
proof -
  from assms have "sorted_wrt (\<lambda>p q. pipe_x p + 364 \<le> pipe_x q) (pipes g)"
    by (auto dest: reachable_game_inv simp: game_inv_def)
  then show ?thesis
    by (rule sorted_wrt_mono_rel [rotated]) simp
qed

theorem pipes_sorted_ascending_witness:
  "reachable state_182 \<and> map pipe_x (pipes state_182) = [36, 400]
   \<and> pipe_x (pipes state_182 ! 0) < pipe_x (pipes state_182 ! 1)"
  using pipes_sorted_ascending [OF reachable_state_182] reachable_state_182
  by (simp add: state_182_def)

text \<open>
  C6 (as the specification has it) fails: after 182 frames of the sample run there are
  two pipes, at \<open>x = 36\<close> and \<open>x = 400\<close> in list order; the earlier one does not have
  the greater \<open>x\<close>.
\<close>

theorem pipes_descending_counterexample:
  "reachable state_182 \<and> length (pipes state_182) = 2
   \<and> \<not> pipe_x (pipes state_182 ! 0) > pipe_x (pipes state_182 ! 1)"
  using reachable_state_182 by (simp add: state_182_def)

section \<open>Removed pipes have been scored\<close>

lemma handle_event_playing_fields:
  assumes "\<not> game_over g" "handle_event g e = Some g1"
  shows "\<not> game_over g1 \<and> pipes g1 = pipes g \<and> score g1 = score g"
  using assms by (cases e) (auto simp: Let_def split: if_splits)

lemma handle_events_playing_fields:
  assumes "\<not> game_over g" "handle_events g es = Some g1"
  shows "\<not> game_over g1 \<and> pipes g1 = pipes g \<and> score g1 = score g"
  using assms
proof (induction es arbitrary: g)
  case Nil
  then show ?case by simp
next
  case (Cons e es)
  from Cons.prems(2) obtain g' where g': "handle_event g e = Some g'" "handle_events g' es = Some g1"
    by (auto split: option.splits)
  from Cons.prems(1) g'(1) have "\<not> game_over g' \<and> pipes g' = pipes g \<and> score g' = score g"
    by (rule handle_event_playing_fields)
  with Cons.IH [OF _ g'(2)] show ?case by simp
qed

lemma handle_events_over_fields:
  assumes "game_over g" "handle_events g es = Some g1"
  shows "if game_over g1 then g1 = g else pipes g1 = [] \<and> score g1 = 0"
  using assms
proof (induction es)
  case Nil
  then show ?case by simp
next
  case (Cons e es)
  from Cons.prems(2) obtain g' where g': "handle_event g e = Some g'" "handle_events g' es = Some g1"
    by (auto split: option.splits)
  show ?case
  proof (cases "e = KEYDOWN K_SPACE")
    case True
    with Cons.prems(1) g'(1) have "g' = reset_game"
      by (simp add: Let_def)
    then have "\<not> game_over g'" "pipes g' = []" "score g' = 0"
      by (simp_all add: reset_game_def)
    with handle_events_playing_fields [OF _ g'(2)] show ?thesis by simp
  next
    case False
    with Cons.prems(1) g'(1) have "g' = g"
      by (cases e) (auto simp: Let_def)
    with Cons.IH Cons.prems(1) g'(2) show ?thesis by simp
  qed
qed

lemma count_passed_moved:
  "length (filter pipe_passed (map Pipe_move ps)) = length (filter pipe_passed ps)"
  by (induction ps) (simp_all add: Pipe_move_def)

lemma count_passed_split:
  assumes "\<forall>q\<in>set qs. off_screen q \<longrightarrow> pipe_passed q"
  shows "length (filter pipe_passed qs)
     = length (filter off_screen qs) + length (filter pipe_passed (filter (\<lambda>q. \<not> off_screen q) qs))"
  using assms by (induction qs) auto

lemma count_passed_marked:
  "length (filter pipe_passed (map (mark_passed bx) qs))
     = length (filter pipe_passed qs) + length (filter (newly_passed bx) qs)"
  by (induction qs) (auto simp: mark_passed_def newly_passed_def)

lemma off_screen_already_passed:
  assumes "game_inv g" "q \<in> set (pipes (spawn_pipes (move_all g) rnd))" "off_screen q"
  shows "pipe_passed q"
proof -
  have "\<not> off_screen (Pipe_init SCREEN_WIDTH rnd)"
    by (simp add: off_screen_def Pipe_init_def consts_defs)
  with assms(2,3) obtain p where p: "p \<in> set (pipes g)" "q = Pipe_move p"
    by (auto simp: pipes_spawn_pipes move_all_fields split: if_splits)
  with assms(1) have "pipe_ok (pipe_spawn_counter g) p"
    by (simp add: game_inv_def list_all_iff)
  with assms(3) p(2) show ?thesis
    by (simp add: pipe_ok_def off_screen_def Pipe_move_def consts_defs)
qed

lemma score_accounts_update:
  assumes "game_inv g" and "score g = int n + int (length (filter pipe_passed (pipes g)))"
  shows "score (update g rnd)
     = int (n + length (filter off_screen (pipes (spawn_pipes (move_all g) rnd))))
       + int (length (filter pipe_passed (pipes (update g rnd))))"
proof -
  let ?L = "pipes (spawn_pipes (move_all g) rnd)"
  let ?K = "filter (\<lambda>p. \<not> off_screen p) ?L"
  let ?bx = "bird_x (bird g)"
  have "\<not> pipe_passed (Pipe_init SCREEN_WIDTH rnd)"
    by (simp add: Pipe_init_def)
  then have L: "length (filter pipe_passed ?L) = length (filter pipe_passed (pipes g))"
    unfolding pipes_spawn_pipes move_all_fields filter_append length_append count_passed_moved
    by simp
  have "\<forall>q\<in>set ?L. off_screen q \<longrightarrow> pipe_passed q"
    using assms(1) by (auto intro: off_screen_already_passed)
  then have split: "length (filter pipe_passed ?L)
      = length (filter off_screen ?L) + length (filter pipe_passed ?K)"
    by (rule count_passed_split)
  have ps': "pipes (update g rnd) = map (mark_passed ?bx) ?K"
    by (simp add: pipes_update pipes_spawn_pipes move_all_fields)
  have sc: "score (update g rnd) = score g + int (length (filter (newly_passed ?bx) ?K))"
    by (simp add: update_def check_collisions_fields score_manage_pipes move_all_fields
        Bird_move_fields)
  show ?thesis
    unfolding sc ps' count_passed_marked assms(2) L [symmetric] split by simp
qed

lemma score_accounts_run:
  assumes "game_inv g" and "score g = int n + int (length (filter pipe_passed (pipes g)))"
    and "list_all valid_input inps" and "run_frames g inps = Some g'"
  shows "score g' = int (session_removed g n inps) + int (length (filter pipe_passed (pipes g')))"
  using assms
proof (induction inps arbitrary: g n)
  case Nil
  then show ?case by simp
next
  case (Cons i inps)
  from Cons.prems(3) have vi: "valid_input i" and rest: "list_all valid_input inps"
    by simp_all
  from Cons.prems(4) obtain g1 where g1: "handle_events g (events i) = Some g1"
    and run: "run_frames (if \<not> game_over g1 then update g1 (randint i) else g1) inps = Some g'"
    by (auto simp: frame_def split: option.splits)
  have inv1: "game_inv g1"
    using Cons.prems(1) g1 by (rule game_inv_handle_events)
  show ?case
  proof (cases "game_over g1")
    case True
    have "game_over g"
      using handle_events_playing_fields [OF _ g1] True by auto
    then have "g1 = g"
      using handle_events_over_fields [OF _ g1] True by simp
    with True g1 run Cons.IH [OF Cons.prems(1,2) rest] show ?thesis
      by simp
  next
    case False
    let ?n0 = "if game_over g then 0 else n"
    let ?n1 = "?n0 + length (filter off_screen (pipes (spawn_pipes (move_all g1) (randint i))))"
    have start: "score g1 = int ?n0 + int (length (filter pipe_passed (pipes g1)))"
    proof (cases "game_over g")
      case True
      with handle_events_over_fields [OF _ g1] False show ?thesis by simp
    next
      case False
      with handle_events_playing_fields [OF _ g1] Cons.prems(2) show ?thesis by simp
    qed
    have inv2: "game_inv (update g1 (randint i))"
      using inv1 vi by (auto simp: valid_input_def intro: game_inv_update)
    have "score (update g1 (randint i))
        = int ?n1 + int (length (filter pipe_passed (pipes (update g1 (randint i)))))"
      using inv1 start by (rule score_accounts_update)
    from Cons.IH [OF inv2 this rest] run False
    have "score g' = int (session_removed (update g1 (randint i)) ?n1 inps)
        + int (length (filter pipe_passed (pipes g')))"
      by simp
    with g1 False show ?thesis by simp
  qed
qed

lemma session_removed_append:
  "session_removed g n (xs @ ys) =
     (case run_frames g xs of None \<Rightarrow> session_removed g n xs
      | Some g' \<Rightarrow> session_removed g' (session_removed g n xs) ys)"
  by (induction xs arbitrary: g n) (auto simp: frame_def split: option.splits)

text \<open>
  C9. Take any run from the start of the game and one more frame that is evaluated
  while Playing. Every pipe that the removal pass of that frame drops as off-screen is
  a pipe of the state at the start of the frame, moved once; at the start of the frame
  it was still on screen, its trailing edge was already left of the bird
  (\<open>x + PIPE_WIDTH < 50\<close>) and its flag \<open>passed\<close> was already set. The score at the
  start of the frame is the number of pipes removed so far in this game plus the number
  of flagged pipes present, so it already holds the point of that pipe; and the same
  equation holds at the end of the frame, where the pipe is counted as removed: pruning
  before scoring skips no score.
\<close>

theorem removed_pipes_already_scored:
  assumes "list_all valid_input inps" and "run_frames reset_game inps = Some g"
    and "valid_input inp"
    and "handle_events g (events inp) = Some g1" and "\<not> game_over g1"
    and "q \<in> set (pipes (spawn_pipes (move_all g1) (randint inp)))" and "off_screen q"
  shows "frame g inp = Some (update g1 (randint inp))
    \<and> q \<notin> set (pipes (update g1 (randint inp)))
    \<and> (\<exists>p\<in>set (pipes g). q = Pipe_move p \<and> pipe_passed p
          \<and> pipe_x p + PIPE_WIDTH < bird_x (bird g) \<and> \<not> off_screen p)
    \<and> score g = int (session_removed reset_game 0 inps)
         + int (length (filter pipe_passed (pipes g)))
    \<and> session_removed reset_game 0 (inps @ [inp]) = session_removed reset_game 0 inps
         + length (filter off_screen (pipes (spawn_pipes (move_all g1) (randint inp))))
    \<and> score (update g1 (randint inp)) = int (session_removed reset_game 0 (inps @ [inp]))
         + int (length (filter pipe_passed (pipes (update g1 (randint inp)))))"
proof -
  let ?r = "randint inp"
  have reach: "reachable g"
    using reachable_init assms(1,2) by (rule reachable_run_frames)
  then have inv: "game_inv g"
    by (rule reachable_game_inv)
  have inv1: "game_inv g1"
    using inv assms(4) by (rule game_inv_handle_events)
  then have ok: "list_all (pipe_ok (pipe_spawn_counter g1)) (pipes g1)"
    by (simp add: game_inv_def)
  from inv have bx: "bird_x (bird g) = 50"
    by (simp add: game_inv_def)
  have fr: "frame g inp = Some (update g1 ?r)"
    using assms(4,5) by (simp add: frame_def)
  have "\<not> off_screen (Pipe_init SCREEN_WIDTH ?r)"
    by (simp add: off_screen_def Pipe_init_def consts_defs)
  with assms(6,7) obtain p where p: "p \<in> set (pipes g1)" "q = Pipe_move p"
    by (auto simp: pipes_spawn_pipes move_all_fields split: if_splits)
  from p(1) ok have pok: "pipe_ok (pipe_spawn_counter g1) p"
    by (simp add: list_all_iff)
  from assms(7) p(2) pok have past: "pipe_x p + PIPE_WIDTH < 50"
    by (simp add: off_screen_def Pipe_move_def pipe_ok_def consts_defs)
  with pok have flagged: "pipe_passed p" "\<not> off_screen p"
    by (simp_all add: pipe_ok_def off_screen_def)
  have playing: "\<not> game_over g"
  proof
    assume "game_over g"
    then have "pipes g1 = []"
      using handle_events_over_fields [OF _ assms(4)] assms(5) by simp
    with p(1) show False by simp
  qed
  then have same: "pipes g1 = pipes g"
    using handle_events_playing_fields [OF _ assms(4)] by simp
  have gone: "q \<notin> set (pipes (update g1 ?r))"
  proof
    assume "q \<in> set (pipes (update g1 ?r))"
    then obtain q' where "q = mark_passed (bird_x (bird g1)) q'" "\<not> off_screen q'"
      by (auto simp: pipes_update)
    then have "\<not> off_screen q"
      by (simp add: off_screen_def pipe_x_mark_passed)
    with assms(7) show False by simp
  qed
  have start: "score reset_game = int 0 + int (length (filter pipe_passed (pipes reset_game)))"
    by (simp add: reset_game_def)
  have before: "score g = int (session_removed reset_game 0 inps)
      + int (length (filter pipe_passed (pipes g)))"
    using game_inv_reset start assms(1,2) by (rule score_accounts_run)
  have count: "session_removed reset_game 0 (inps @ [inp]) = session_removed reset_game 0 inps
      + length (filter off_screen (pipes (spawn_pipes (move_all g1) ?r)))"
    using assms(2,4,5) playing by (simp add: session_removed_append)
  have "run_frames reset_game (inps @ [inp]) = Some (update g1 ?r)"
    using assms(2) fr by (simp add: run_frames_append)
  moreover have "list_all valid_input (inps @ [inp])"
    using assms(1,3) by simp
  ultimately have after: "score (update g1 ?r) = int (session_removed reset_game 0 (inps @ [inp]))
      + int (length (filter pipe_passed (pipes (update g1 ?r))))"
    using game_inv_reset start by (intro score_accounts_run)
  have "\<exists>p\<in>set (pipes g). q = Pipe_move p \<and> pipe_passed p
      \<and> pipe_x p + PIPE_WIDTH < bird_x (bird g) \<and> \<not> off_screen p"
    using p flagged past same bx by auto
  with fr gone before count after show ?thesis by blast
qed

theorem removed_pipes_already_scored_witness:
  "list_all valid_input inputs_211 \<and> run_frames reset_game inputs_211 = Some state_211
   \<and> valid_input idle_frame
   \<and> handle_events state_211 (events idle_frame) = Some state_211 \<and> \<not> game_over state_211
   \<and> Pipe_move (hd (pipes state_211))
        \<in> set (pipes (spawn_pipes (move_all state_211) (randint idle_frame)))
   \<and> off_screen (Pipe_move (hd (pipes state_211)))
   \<and> pipe_passed (hd (pipes state_211))
   \<and> score state_211 = 1 \<and> length (filter pipe_passed (pipes state_211)) = 1
   \<and> session_removed reset_game 0 inputs_211 = 0
   \<and> session_removed reset_game 0 (inputs_211 @ [idle_frame]) = 1
   \<and> score (update state_211 (randint idle_frame)) = 1
   \<and> length (filter pipe_passed (pipes (update state_211 (randint idle_frame)))) = 0"
proof -
  have h: "handle_events state_211 (events idle_frame) = Some state_211"
    by (simp add: idle_frame_def)
  have n: "\<not> game_over state_211"
    by (simp add: state_211_def)
  have m: "Pipe_move (hd (pipes state_211))
        \<in> set (pipes (spawn_pipes (move_all state_211) (randint idle_frame)))"
    by (simp add: state_211_def idle_frame_def step_defs)
  have off: "off_screen (Pipe_move (hd (pipes state_211)))"
    by (simp add: state_211_def step_defs)
  have c: "length (filter off_screen
      (pipes (spawn_pipes (move_all state_211) (randint idle_frame)))) = 1"
    by (simp add: state_211_def idle_frame_def step_defs)
  have s: "score state_211 = 1" "length (filter pipe_passed (pipes state_211)) = 1"
    "pipe_passed (hd (pipes state_211))"
    by (simp_all add: state_211_def)
  have a: "length (filter pipe_passed (pipes (update state_211 (randint idle_frame)))) = 0"
    by (simp add: state_211_def idle_frame_def step_defs)
  have t: "session_removed reset_game 0 inputs_211 = 0
      \<and> session_removed reset_game 0 (inputs_211 @ [idle_frame]) = 1
      \<and> score (update state_211 (randint idle_frame)) = 1"
    using removed_pipes_already_scored [OF valid_inputs_211 run_211_from_start
        valid_sample_frames(2) h n m off]
    unfolding s c a by simp
  from t valid_inputs_211 run_211_from_start valid_sample_frames(2) h n m off s a
  show ?thesis by blast
qed

section \<open>The distance between pipes\<close>

text \<open>
  C10. In every reachable state, the \<open>x\<close> coordinates of two pipes at different places
  of the list differ by at least 364, which is more than \<open>PIPE_WIDTH\<close>; so the
  horizontal extents of their rectangles are disjoint and none of their rectangles
  overlap.
\<close>

theorem pipes_spaced:
  assumes "reachable g" and "i < length (pipes g)" and "j < length (pipes g)" and "i \<noteq> j"
  shows "364 \<le> \<bar>pipe_x (pipes g ! i) - pipe_x (pipes g ! j)\<bar>
    \<and> PIPE_WIDTH < 364
    \<and> (rect_right (get_upper_rect (pipes g ! i)) < rect_left (get_upper_rect (pipes g ! j))
        \<or> rect_right (get_upper_rect (pipes g ! j)) < rect_left (get_upper_rect (pipes g ! i)))
    \<and> (rect_right (get_lower_rect (pipes g ! i)) < rect_left (get_lower_rect (pipes g ! j))
        \<or> rect_right (get_lower_rect (pipes g ! j)) < rect_left (get_lower_rect (pipes g ! i)))
    \<and> \<not> strict_overlap (get_upper_rect (pipes g ! i)) (get_upper_rect (pipes g ! j))
    \<and> \<not> strict_overlap (get_upper_rect (pipes g ! i)) (get_lower_rect (pipes g ! j))
    \<and> \<not> strict_overlap (get_lower_rect (pipes g ! i)) (get_upper_rect (pipes g ! j))
    \<and> \<not> strict_overlap (get_lower_rect (pipes g ! i)) (get_lower_rect (pipes g ! j))"
proof -
  from assms(1) have sp: "sorted_wrt (\<lambda>p q. pipe_x p + 364 \<le> pipe_x q) (pipes g)"
    by (auto dest: reachable_game_inv simp: game_inv_def)
  have lt: "pipe_x (pipes g ! a) + 364 \<le> pipe_x (pipes g ! b)"
    if "a < b" "b < length (pipes g)" for a b
    using sp that by (rule sorted_wrt_nth_less)
  from assms(4) have "i < j \<or> j < i" by auto
  then have d: "pipe_x (pipes g ! i) + 364 \<le> pipe_x (pipes g ! j)
      \<or> pipe_x (pipes g ! j) + 364 \<le> pipe_x (pipes g ! i)"
    using lt assms(2,3) by blast
  then show ?thesis
    by (auto simp: strict_overlap_def get_upper_rect_def get_lower_rect_def Rect_def
        rect_left_def rect_right_def PIPE_WIDTH_def)
qed

theorem pipes_spaced_witness:
  "reachable state_182 \<and> (0::nat) < length (pipes state_182) \<and> (1::nat) < length (pipes state_182)
   \<and> (0::nat) \<noteq> 1
   \<and> \<bar>pipe_x (pipes state_182 ! 0) - pipe_x (pipes state_182 ! 1)\<bar> = 364
   \<and> rect_right (get_upper_rect (pipes state_182 ! 0)) = 116
   \<and> rect_left (get_upper_rect (pipes state_182 ! 1)) = 400
   \<and> \<not> strict_overlap (get_upper_rect (pipes state_182 ! 0)) (get_upper_rect (pipes state_182 ! 1))"
proof -
  have l: "(0::nat) < length (pipes state_182)" "(1::nat) < length (pipes state_182)"
    by (simp_all add: state_182_def)
  have ne: "(0::nat) \<noteq> 1" by simp
  show ?thesis
    using pipes_spaced [OF reachable_state_182 l ne] reachable_state_182 l
    by (simp add: state_182_def get_upper_rect_def Rect_def rect_left_def rect_right_def
        PIPE_WIDTH_def)
qed

section \<open>The floats of a run are exact\<close>










section \<open>Game over\<close>

lemma handle_events_over:
  assumes "game_over g" "KEYDOWN K_SPACE \<notin> set es"
  shows "handle_events g es = (if QUIT \<in> set es then None else Some g)"
  using assms
proof (induction es)
  case Nil
  then show ?case by simp
next
  case (Cons e es)
  then show ?case
    by (cases e) (auto simp: Let_def)
qed

lemma frame_over:
  assumes "game_over g" "no_restart inp"
  shows "frame g inp = (if no_quit inp then Some g else None)"
  using assms
  by (simp add: frame_def no_restart_def no_quit_def handle_events_over)

text \<open>
  C8. Once the game is over, any number of frames without a press of the space bar
  leaves the whole state as it is: the bird, every pipe with its position and its flag,
  the score and the counter. The run returns that same state, unless a \<^verbatim>\<open>QUIT\<close>
  event ends the process. So only the restart key changes the state again.
\<close>

theorem over_is_frozen:
  assumes "game_over g" and "list_all no_restart inps"
  shows "run_frames g inps = (if list_all no_quit inps then Some g else None)"
  using assms
proof (induction inps)
  case Nil
  then show ?case by simp
next
  case (Cons i inps)
  then show ?case
    by (simp add: frame_over)
qed

theorem over_is_frozen_witness:
  "game_over over_197
   \<and> list_all no_restart [\<lparr>events = [KEYDOWN K_OTHER, OTHER_EVENT], randint = 300\<rparr>, idle_frame]
   \<and> run_frames over_197 [\<lparr>events = [KEYDOWN K_OTHER, OTHER_EVENT], randint = 300\<rparr>, idle_frame]
       = Some over_197
   \<and> run_frames over_197 [jump_frame] = Some (update reset_game 260)"
proof -
  have o: "game_over over_197"
    by (simp add: over_197_def)
  have l: "list_all no_restart [\<lparr>events = [KEYDOWN K_OTHER, OTHER_EVENT], randint = 300\<rparr>, idle_frame]"
    by (simp add: no_restart_def idle_frame_def)
  have r: "run_frames over_197 [jump_frame] = Some (update reset_game 260)"
    by (simp add: over_197_def jump_frame_def step_defs)
  show ?thesis
    using over_is_frozen [OF o l] o l r
    by (simp add: no_quit_def idle_frame_def)
qed

section \<open>Falling\<close>








section \<open>The barrier rectangles\<close>

text \<open>
  C4 (as the code has it). The upper rectangle of a pipe spans from \<open>y = 0\<close> to
  \<open>gap_y - PIPE_GAP // 2\<close>, and \<open>PIPE_GAP // 2\<close> is exactly half the gap. The lower
  rectangle starts at \<open>gap_y + PIPE_GAP // 2\<close>, and its height (not its bottom edge) is
  \<open>SCREEN_HEIGHT\<close>: its bottom edge is \<open>gap_y + PIPE_GAP // 2 + SCREEN_HEIGHT\<close>, which
  lies below the bottom of the screen as soon as the rectangle starts on the screen.
\<close>

theorem barrier_rects_span:
  "rect_top (get_upper_rect p) = 0
   \<and> rect_bottom (get_upper_rect p) = pipe_gap_y p - PIPE_GAP div 2
   \<and> 2 * (PIPE_GAP div 2) = PIPE_GAP
   \<and> rect_top (get_lower_rect p) = pipe_gap_y p + PIPE_GAP div 2
   \<and> rect_h (get_lower_rect p) = SCREEN_HEIGHT
   \<and> rect_bottom (get_lower_rect p) = pipe_gap_y p + PIPE_GAP div 2 + SCREEN_HEIGHT
   \<and> (0 < rect_top (get_lower_rect p) \<longrightarrow> SCREEN_HEIGHT < rect_bottom (get_lower_rect p))"
  by (simp add: get_upper_rect_def get_lower_rect_def Rect_def rect_top_def rect_bottom_def
      consts_defs)

theorem barrier_rects_span_witness:
  "0 < rect_top (get_lower_rect (Pipe_init SCREEN_WIDTH 260))
   \<and> rect_top (get_upper_rect (Pipe_init SCREEN_WIDTH 260)) = 0
   \<and> rect_bottom (get_upper_rect (Pipe_init SCREEN_WIDTH 260)) = 185
   \<and> rect_top (get_lower_rect (Pipe_init SCREEN_WIDTH 260)) = 335
   \<and> rect_bottom (get_lower_rect (Pipe_init SCREEN_WIDTH 260)) = 935
   \<and> SCREEN_HEIGHT < rect_bottom (get_lower_rect (Pipe_init SCREEN_WIDTH 260))"
  using barrier_rects_span [of "Pipe_init SCREEN_WIDTH 260"]
  by (simp add: Pipe_init_def consts_defs get_lower_rect_def Rect_def rect_top_def)

text \<open>
  C4 (as the specification has it) fails: the bottom edge of the lower rectangle of a
  pipe with \<open>gap_y = 260\<close> is 935, not the screen height 600.
\<close>

theorem lower_rect_bottom_counterexample:
  "rect_bottom (get_lower_rect (Pipe_init SCREEN_WIDTH 260)) \<noteq> SCREEN_HEIGHT"
  by (simp add: get_lower_rect_def Pipe_init_def Rect_def rect_bottom_def consts_defs)

end
